theory Spec2Isabelle
  imports Complex_Main "HOL-Library.AList"
begin

section \<open>Configuration\<close>

text \<open>
  The two pacing constants of \<^verbatim>\<open>email_confirm.py\<close>, in seconds. Clock readings
  (\<^verbatim>\<open>time.time()\<close>) are real numbers; the handlers receive the reading as an argument.
\<close>

definition BATCH_INTERVAL :: int where
  "BATCH_INTERVAL = 10"

definition RESEND_WINDOW :: int where
  "RESEND_WINDOW = 30"

section \<open>Data model\<close>

text \<open>
  One entry of \<^verbatim>\<open>MailWorker._status\<close>: the dictionary
  \<^verbatim>\<open>{'sent', 'ts', 'confirmed', 'token'}\<close> kept per e-mail address.
\<close>

record rec =
  sent :: bool
  ts :: real
  confirmed :: bool
  token :: string

text \<open>
  The worker owns two dictionaries: \<^verbatim>\<open>_status\<close> (address to record) and
  \<^verbatim>\<open>_token_map\<close> (token to address). A Python dictionary keeps insertion order, so
  each is an association list: a lookup is \<open>map_of\<close>, an assignment \<^verbatim>\<open>d[k] = v\<close> is
  \<open>AList.update\<close> (in place for a known key, appended for a new one) and
  \<^verbatim>\<open>d.pop(k, None)\<close> is \<open>dict_pop\<close>.
\<close>

record worker =
  status :: "(string \<times> rec) list"
  token_map :: "(string \<times> string) list"

definition init :: worker where
  "init = \<lparr>status = [], token_map = []\<rparr>"

definition dict_get :: "('k \<times> 'v) list \<Rightarrow> 'k \<Rightarrow> 'v option" where
  "dict_get d k = map_of d k"

definition dict_pop :: "'k \<Rightarrow> ('k \<times> 'v) list \<Rightarrow> 'v option \<times> ('k \<times> 'v) list" where
  "dict_pop k d = (map_of d k, AList.delete k d)"

text \<open>The reply of a status query: \<^verbatim>\<open>{"sent": int, "timer": int, "confirmed": int}\<close>.\<close>

record answer =
  ans_sent :: int
  ans_timer :: int
  ans_confirmed :: int

text \<open>Python's \<^verbatim>\<open>int(x)\<close> on a float drops the fractional part (rounds toward zero).\<close>

definition int_trunc :: "real \<Rightarrow> int" where
  "int_trunc x = (if 0 \<le> x then \<lfloor>x\<rfloor> else \<lceil>x\<rceil>)"

section \<open>Task handlers of the worker\<close>

definition cleanup :: "string \<Rightarrow> string \<Rightarrow> worker \<Rightarrow> worker" where
  "cleanup email tok w =
     w\<lparr>status := snd (dict_pop email (status w)),
       token_map := snd (dict_pop tok (token_map w))\<rparr>"

text \<open>
  The tail of \<^verbatim>\<open>_handle_request\<close>: a new record under the address and the token filed
  in the index. The token is drawn by \<^verbatim>\<open>secrets.token_urlsafe(32)\<close>; the handler takes
  the drawn value as the argument \<open>tok\<close>.
\<close>

definition store_new :: "string \<Rightarrow> string \<Rightarrow> worker \<Rightarrow> worker" where
  "store_new tok email w =
     w\<lparr>status := AList.update email
                    \<lparr>sent = False, ts = 0, confirmed = False, token = tok\<rparr> (status w),
       token_map := AList.update tok email (token_map w)\<rparr>"

definition handle_request :: "real \<Rightarrow> string \<Rightarrow> string \<Rightarrow> worker \<Rightarrow> bool \<times> worker" where
  "handle_request now tok email w =
     (case dict_get (status w) email of
        Some r \<Rightarrow>
          if confirmed r then (True, w)
          else if sent r \<and> now - ts r < of_int RESEND_WINDOW then (False, w)
          else (True, store_new tok email
                        (w\<lparr>token_map := snd (dict_pop (token r) (token_map w))\<rparr>))
      | None \<Rightarrow> (True, store_new tok email w))"

definition handle_status :: "real \<Rightarrow> string \<Rightarrow> worker \<Rightarrow> answer option \<times> worker" where
  "handle_status now email w =
     (case dict_get (status w) email of
        None \<Rightarrow> (None, w)
      | Some r \<Rightarrow>
          (let remain = (if sent r
                         then max 0 (RESEND_WINDOW - int_trunc (now - ts r)) else 0);
               ans = \<lparr>ans_sent = of_bool (sent r), ans_timer = remain,
                      ans_confirmed = of_bool (confirmed r)\<rparr>
           in (Some ans, if confirmed r then cleanup email (token r) w else w)))"

text \<open>
  \<^verbatim>\<open>_handle_confirm\<close>: the token is popped first; \<^verbatim>\<open>if not email\<close> is true for
  \<^verbatim>\<open>None\<close> and for the empty string alike.
\<close>

definition handle_confirm :: "string \<Rightarrow> worker \<Rightarrow> bool \<times> worker" where
  "handle_confirm tok w =
     (let (email, tm) = dict_pop tok (token_map w);
          w' = w\<lparr>token_map := tm\<rparr>
      in case email of
           None \<Rightarrow> (False, w')
         | Some e \<Rightarrow>
             if e = [] then (False, w')
             else (case dict_get (status w') e of
                     Some r \<Rightarrow>
                       (True, w'\<lparr>status := AList.update e (r\<lparr>confirmed := True\<rparr>) (status w')\<rparr>)
                   | None \<Rightarrow> (False, w')))"

section \<open>Tasks of the queue\<close>

text \<open>
  A \<^verbatim>\<open>Task\<close> as the worker takes it from the queue, together with what its handler reads
  from outside: \<open>Request now tok email\<close> is the task of \<^verbatim>\<open>email_confirm(email)\<close>, handled
  when the clock reads \<open>now\<close> and the token source hands out \<open>tok\<close>; \<open>Status now email\<close> is
  the task of \<^verbatim>\<open>is_confirm(email)\<close>; \<open>Confirm tok\<close> is the task of
  \<^verbatim>\<open>mark_confirmed(tok)\<close>. \<open>handle\<close> is the branch on \<^verbatim>\<open>t.op\<close> in the loop of
  \<^verbatim>\<open>run\<close>.
\<close>

datatype task =
    Request real string string
  | Status real string
  | Confirm string

fun handle :: "task \<Rightarrow> worker \<Rightarrow> worker" where
  "handle (Request now tok email) w = snd (handle_request now tok email w)"
| "handle (Status now email) w = snd (handle_status now email w)"
| "handle (Confirm tok) w = snd (handle_confirm tok w)"

fun handle_all :: "task list \<Rightarrow> worker \<Rightarrow> worker" where
  "handle_all [] w = w"
| "handle_all (t # rest) w = handle_all rest (handle t w)"

text \<open>
  The values of \<^verbatim>\<open>_status\<close> are dictionary objects, and the batch sender keeps references
  to them across its delivery. A task takes the object of an address out of \<^verbatim>\<open>_status\<close>
  in two places: a request that passes both early returns assigns a new dictionary to
  \<^verbatim>\<open>_status[email]\<close>, and the status read of a confirmed record pops the address in
  \<^verbatim>\<open>_cleanup\<close>. A confirmation writes into the object where it is. \<open>lost t w\<close> is the
  address whose object leaves \<^verbatim>\<open>_status\<close> when \<open>t\<close> is handled in \<open>w\<close>, and
  \<open>lost_all\<close> collects these addresses along a list of tasks.
\<close>

fun lost :: "task \<Rightarrow> worker \<Rightarrow> string list" where
  "lost (Request now tok email) w =
     (case dict_get (status w) email of
        Some r \<Rightarrow>
          if confirmed r then []
          else if sent r \<and> now - ts r < of_int RESEND_WINDOW then []
          else [email]
      | None \<Rightarrow> [])"
| "lost (Status now email) w =
     (case dict_get (status w) email of
        None \<Rightarrow> []
      | Some r \<Rightarrow> if confirmed r then [email] else [])"
| "lost (Confirm tok) w = []"

fun lost_all :: "task list \<Rightarrow> worker \<Rightarrow> string list" where
  "lost_all [] w = []"
| "lost_all (t # rest) w = lost t w @ lost_all rest (handle t w)"

section \<open>The batch sender\<close>

text \<open>
  The mail transport and the message class are outside the repository. One delivery is
  described by what each call does: \<^verbatim>\<open>connect\<close>, \<^verbatim>\<open>login\<close> and \<^verbatim>\<open>quit\<close> either
  return or raise; \<^verbatim>\<open>_build_message\<close> returns or raises per address and token (the
  message class refuses a \<^verbatim>\<open>To\<close> header with a line break inside); \<^verbatim>\<open>send_message\<close>
  succeeds or raises per address and token.
\<close>

record smtp =
  connect_ok :: bool
  login_ok :: bool
  build_ok :: "string \<Rightarrow> string \<Rightarrow> bool"
  send_ok :: "string \<Rightarrow> string \<Rightarrow> bool"
  quit_ok :: bool

datatype error = ConnectError | LoginError | BuildError | QuitError

definition select_batch :: "worker \<Rightarrow> (string \<times> rec) list" where
  "select_batch w = filter (\<lambda>(e, r). \<not> sent r \<and> \<not> confirmed r) (status w)"

text \<open>
  The loop of \<^verbatim>\<open>_send_batch\<close>: the message is built outside the \<^verbatim>\<open>try\<close>, so an
  exception of \<^verbatim>\<open>_build_message\<close> ends the whole delivery; an exception of
  \<^verbatim>\<open>send_message\<close> is caught and printed, and the loop goes on. The value returned lists
  the addresses whose message raised (the printed lines).
\<close>

fun send_items :: "smtp \<Rightarrow> (string \<times> rec) list \<Rightarrow> error + string list" where
  "send_items env [] = Inr []"
| "send_items env ((email, r) # rest) =
     (if \<not> build_ok env email (token r) then Inl BuildError
      else (case send_items env rest of
              Inl e \<Rightarrow> Inl e
            | Inr printed \<Rightarrow>
                Inr ((if send_ok env email (token r) then [] else [email]) @ printed)))"

definition send_batch :: "smtp \<Rightarrow> (string \<times> rec) list \<Rightarrow> error + string list" where
  "send_batch env batch =
     (if \<not> connect_ok env then Inl ConnectError
      else if \<not> login_ok env then Inl LoginError
      else (case send_items env batch of
              Inl e \<Rightarrow> Inl e
            | Inr printed \<Rightarrow> if \<not> quit_ok env then Inl QuitError else Inr printed))"

text \<open>
  The marking loop \<^verbatim>\<open>for email, rec in batch: rec["sent"] = True; rec["ts"] = now\<close>
  writes into the record objects of the batch. Such an object is the record of its address
  in \<^verbatim>\<open>_status\<close> unless a task handled during the delivery took it out; \<open>held\<close> keeps the
  entries of the batch whose object is still there, and \<open>mark_sent\<close> writes into those.
  An object that was taken out is written as well, but nothing of the worker refers to it
  any more.
\<close>

definition mark :: "real \<Rightarrow> rec \<Rightarrow> rec" where
  "mark now r = r\<lparr>sent := True, ts := now\<rparr>"

definition held :: "(string \<times> rec) list \<Rightarrow> string list \<Rightarrow> (string \<times> rec) list" where
  "held batch gone = filter (\<lambda>(email, r). email \<notin> set gone) batch"

definition mark_sent :: "real \<Rightarrow> (string \<times> rec) list \<Rightarrow> (string \<times> rec) list \<Rightarrow> (string \<times> rec) list" where
  "mark_sent now batch st =
     foldl (\<lambda>d (email, r). AList.map_entry email (mark now) d) st batch"

text \<open>
  One pass of the loop body of \<^verbatim>\<open>_batch_sender\<close> after its sleep. The sender is a task
  of its own: while it awaits \<^verbatim>\<open>_send_batch\<close>, the loop of \<^verbatim>\<open>run\<close> goes on handling
  the queue. \<open>mid\<close> lists the tasks handled between the selection and the end of the
  delivery, in order; they see the selected records still unsent. \<open>now\<close> is the clock read
  after the delivery returned. The result is the outcome of the delivery and the worker at
  the end of the pass: an exception of \<^verbatim>\<open>_send_batch\<close> leaves the loop before any record
  is marked, and an empty batch skips the delivery and the marking (\<^verbatim>\<open>continue\<close>); the
  sender then awaits nothing, and the tasks of \<open>mid\<close> are handled as they would be right
  after the pass.
\<close>

definition batch_cycle :: "smtp \<Rightarrow> task list \<Rightarrow> real \<Rightarrow> worker \<Rightarrow> (error + string list) \<times> worker" where
  "batch_cycle env mid now w =
     (let batch = select_batch w;
          w1 = handle_all mid w
      in if batch = [] then (Inr [], w1)
         else (case send_batch env batch of
                 Inl e \<Rightarrow> (Inl e, w1)
               | Inr printed \<Rightarrow>
                   (Inr printed,
                    w1\<lparr>status := mark_sent now (held batch (lost_all mid w)) (status w1)\<rparr>)))"

section \<open>Runs of the worker\<close>

text \<open>
  What happens to the worker, in order: a task is handled while the sender sleeps, or the
  sender makes one pass, \<open>Dispatch env mid now\<close>, against a transport that behaves as \<open>env\<close>
  and with the tasks \<open>mid\<close> handled during the delivery. An exception of the delivery ends
  the sender, so the worker itself sees no pass after a failed one; the runs below allow
  one, so they cover every run of the worker and some more.
\<close>

datatype event =
    Task task
  | Dispatch smtp "task list" real

fun step :: "event \<Rightarrow> worker \<Rightarrow> worker" where
  "step (Task t) w = handle t w"
| "step (Dispatch env mid now) w = snd (batch_cycle env mid now w)"

fun run :: "event list \<Rightarrow> worker \<Rightarrow> worker" where
  "run [] w = w"
| "run (ev # evs) w = run evs (step ev w)"

text \<open>The tasks handled in a run, the addresses requested and the tokens drawn.\<close>

fun tasks :: "event \<Rightarrow> task list" where
  "tasks (Task t) = [t]"
| "tasks (Dispatch env mid now) = mid"

fun requested :: "task \<Rightarrow> string option" where
  "requested (Request now tok email) = Some email"
| "requested _ = None"

fun drawn :: "task \<Rightarrow> string option" where
  "drawn (Request now tok email) = Some tok"
| "drawn _ = None"

definition requests :: "string \<Rightarrow> event list \<Rightarrow> bool" where
  "requests a evs = (Some a \<in> set (map requested (concat (map tasks evs))))"

definition draws :: "string \<Rightarrow> event list \<Rightarrow> bool" where
  "draws t evs = (Some t \<in> set (map drawn (concat (map tasks evs))))"

text \<open>
  A draw is fresh when the token is not the token of any live record; a run is fresh when
  every request in it draws a fresh token.
\<close>

definition live_tokens :: "worker \<Rightarrow> string set" where
  "live_tokens w = set (map (\<lambda>(e, r). token r) (status w))"

fun fresh_task :: "task \<Rightarrow> worker \<Rightarrow> bool" where
  "fresh_task (Request now tok email) w = (tok \<notin> live_tokens w)"
| "fresh_task _ w = True"

fun fresh_tasks :: "task list \<Rightarrow> worker \<Rightarrow> bool" where
  "fresh_tasks [] w = True"
| "fresh_tasks (t # rest) w = (fresh_task t w \<and> fresh_tasks rest (handle t w))"

fun fresh_event :: "event \<Rightarrow> worker \<Rightarrow> bool" where
  "fresh_event (Task t) w = fresh_task t w"
| "fresh_event (Dispatch env mid now) w = fresh_tasks mid w"

fun fresh_run :: "event list \<Rightarrow> worker \<Rightarrow> bool" where
  "fresh_run [] w = True"
| "fresh_run (ev # evs) w = (fresh_event ev w \<and> fresh_run evs (step ev w))"

section \<open>Invariants\<close>

text \<open>A dictionary has one entry per key.\<close>

definition wf :: "worker \<Rightarrow> bool" where
  "wf w \<longleftrightarrow> distinct (map fst (status w)) \<and> distinct (map fst (token_map w))"

text \<open>Every key of the index leads to a live record that carries this token.\<close>

definition index_sound :: "worker \<Rightarrow> bool" where
  "index_sound w \<longleftrightarrow>
     (\<forall>t a. map_of (token_map w) t = Some a \<longrightarrow>
        (\<exists>r. map_of (status w) a = Some r \<and> token r = t))"

text \<open>The records behind the keys of the index are not confirmed.\<close>

definition index_pending :: "worker \<Rightarrow> bool" where
  "index_pending w \<longleftrightarrow>
     (\<forall>t a r. map_of (token_map w) t = Some a \<and> map_of (status w) a = Some r
        \<longrightarrow> \<not> confirmed r)"

text \<open>No two live records carry the same token.\<close>

definition tokens_unique :: "worker \<Rightarrow> bool" where
  "tokens_unique w \<longleftrightarrow>
     (\<forall>a b ra rb. map_of (status w) a = Some ra \<and> map_of (status w) b = Some rb
        \<and> token ra = token rb \<longrightarrow> a = b)"

text \<open>
  The token of a live record that is not confirmed is filed under its address, the
  record of the empty address apart.
\<close>

definition index_complete :: "worker \<Rightarrow> bool" where
  "index_complete w \<longleftrightarrow>
     (\<forall>a r. map_of (status w) a = Some r \<and> \<not> confirmed r \<and> a \<noteq> []
        \<longrightarrow> map_of (token_map w) (token r) = Some a)"

definition inv :: "worker \<Rightarrow> bool" where
  "inv w \<longleftrightarrow> index_sound w \<and> index_pending w \<and> tokens_unique w \<and> index_complete w"

section \<open>Basic facts about the dictionaries\<close>

lemma store_new_status:
  "map_of (status (store_new tok a w)) =
     (map_of (status w))(a \<mapsto> \<lparr>sent = False, ts = 0, confirmed = False, token = tok\<rparr>)"
  by (simp add: store_new_def update_conv')

lemma store_new_index:
  "map_of (token_map (store_new tok a w)) = (map_of (token_map w))(tok \<mapsto> a)"
  by (simp add: store_new_def update_conv')

lemma dict_pop_map: "map_of (snd (dict_pop k d)) = (map_of d)(k := None)"
  by (simp add: dict_pop_def delete_conv')

lemma request_status:
  "map_of (status (snd (handle_request now tok a w))) =
     (case map_of (status w) a of
        Some r \<Rightarrow> if confirmed r \<or> (sent r \<and> now - ts r < of_int RESEND_WINDOW)
                  then map_of (status w)
                  else (map_of (status w))(a \<mapsto> \<lparr>sent = False, ts = 0, confirmed = False, token = tok\<rparr>)
      | None \<Rightarrow> (map_of (status w))(a \<mapsto> \<lparr>sent = False, ts = 0, confirmed = False, token = tok\<rparr>))"
  by (auto simp add: handle_request_def dict_get_def store_new_status split: option.splits)

lemma request_index:
  "map_of (token_map (snd (handle_request now tok a w))) =
     (case map_of (status w) a of
        Some r \<Rightarrow> if confirmed r \<or> (sent r \<and> now - ts r < of_int RESEND_WINDOW)
                  then map_of (token_map w)
                  else ((map_of (token_map w))(token r := None))(tok \<mapsto> a)
      | None \<Rightarrow> (map_of (token_map w))(tok \<mapsto> a))"
  by (auto simp add: handle_request_def dict_get_def store_new_index dict_pop_map split: option.splits)

lemma status_status:
  "map_of (status (snd (handle_status now a w))) =
     (case map_of (status w) a of
        Some r \<Rightarrow> if confirmed r then (map_of (status w))(a := None) else map_of (status w)
      | None \<Rightarrow> map_of (status w))"
  by (simp add: handle_status_def dict_get_def cleanup_def dict_pop_map Let_def split: option.splits)

lemma status_index:
  "map_of (token_map (snd (handle_status now a w))) =
     (case map_of (status w) a of
        Some r \<Rightarrow> if confirmed r then (map_of (token_map w))(token r := None) else map_of (token_map w)
      | None \<Rightarrow> map_of (token_map w))"
  by (simp add: handle_status_def dict_get_def cleanup_def dict_pop_map Let_def split: option.splits)

lemma confirm_index:
  "map_of (token_map (snd (handle_confirm t w))) = (map_of (token_map w))(t := None)"
  by (simp add: handle_confirm_def dict_get_def dict_pop_def delete_conv' Let_def split: option.splits)

lemma confirm_status:
  "map_of (status (snd (handle_confirm t w))) =
     (case map_of (token_map w) t of
        None \<Rightarrow> map_of (status w)
      | Some e \<Rightarrow> if e = [] then map_of (status w)
                  else (case map_of (status w) e of
                          None \<Rightarrow> map_of (status w)
                        | Some r \<Rightarrow> (map_of (status w))(e \<mapsto> r\<lparr>confirmed := True\<rparr>)))"
  by (simp add: handle_confirm_def dict_get_def dict_pop_def update_conv' Let_def split: option.splits)

lemma confirm_reply:
  "fst (handle_confirm t w) \<longleftrightarrow>
     (\<exists>e. map_of (token_map w) t = Some e \<and> e \<noteq> [] \<and> map_of (status w) e \<noteq> None)"
  by (auto simp add: handle_confirm_def dict_get_def dict_pop_def Let_def split: option.splits)

lemma status_absent: "map_of (status w) a = None \<Longrightarrow> handle_status now a w = (None, w)"
  by (simp add: handle_status_def dict_get_def)

lemma mark_idem: "mark now (mark now r) = mark now r"
  by (simp add: mark_def)

lemma mark_sent_map:
  "map_of (mark_sent now batch st) e =
     (if e \<in> fst ` set batch then map_option (mark now) (map_of st e) else map_of st e)"
  unfolding mark_sent_def
proof (induction batch arbitrary: st)
  case Nil
  then show ?case by simp
next
  case (Cons p batch)
  obtain e0 r0 where p: "p = (e0, r0)" by (cases p)
  show ?case
    by (cases "map_of st e0") (auto simp add: p Cons.IH map_of_map_entry mark_idem)
qed

lemma mark_fields [simp]: "token (mark now r) = token r" "confirmed (mark now r) = confirmed r"
  "sent (mark now r)" "ts (mark now r) = now"
  by (simp_all add: mark_def)


lemma marked_back:
  assumes "map_of (mark_sent now b st) e = Some r'"
  shows "\<exists>r. map_of st e = Some r \<and> token r' = token r \<and> confirmed r' = confirmed r"
proof (cases "e \<in> fst ` set b")
  case True
  with assms have "map_option (mark now) (map_of st e) = Some r'"
    by (simp add: mark_sent_map)
  then obtain r where "map_of st e = Some r" "r' = mark now r" by auto
  then show ?thesis by simp
next
  case False
  with assms show ?thesis by (simp add: mark_sent_map)
qed

lemma marked_forth:
  assumes "map_of st e = Some r"
  shows "\<exists>r'. map_of (mark_sent now b st) e = Some r' \<and> token r' = token r
           \<and> confirmed r' = confirmed r"
  using assms by (cases "e \<in> fst ` set b") (simp_all add: mark_sent_map)

text \<open>
  Whatever the delivery does, a pass of the sender leaves the worker as the tasks handled
  meanwhile left it, with some of its records marked.
\<close>

lemma dispatch_cases:
  "\<exists>b. step (Dispatch env mid now) w =
         (handle_all mid w)\<lparr>status := mark_sent now b (status (handle_all mid w))\<rparr>"
proof -
  have unmarked: "(handle_all mid w)\<lparr>status := mark_sent now [] (status (handle_all mid w))\<rparr>
      = handle_all mid w"
    by (simp add: mark_sent_def)
  show ?thesis
  proof (cases "select_batch w = []")
    case True
    then have "step (Dispatch env mid now) w = handle_all mid w"
      by (simp add: batch_cycle_def Let_def)
    with unmarked show ?thesis by metis
  next
    case False
    show ?thesis
    proof (cases "send_batch env (select_batch w)")
      case (Inl err)
      with False have "step (Dispatch env mid now) w = handle_all mid w"
        by (simp add: batch_cycle_def Let_def)
      with unmarked show ?thesis by metis
    next
      case (Inr printed)
      with False have "step (Dispatch env mid now) w =
          (handle_all mid w)\<lparr>status := mark_sent now (held (select_batch w) (lost_all mid w))
                                          (status (handle_all mid w))\<rparr>"
        by (simp add: batch_cycle_def Let_def)
      then show ?thesis by blast
    qed
  qed
qed

section \<open>The index leads to live records\<close>

lemma index_sound_request: "index_sound w \<Longrightarrow> index_sound (snd (handle_request now tok a w))"
  unfolding index_sound_def request_status request_index
  by (auto split: option.splits if_splits) (metis option.inject option.distinct(1))+

lemma index_sound_status: "index_sound w \<Longrightarrow> index_sound (snd (handle_status now a w))"
  unfolding index_sound_def status_status status_index
  by (auto split: option.splits if_splits) (metis option.inject option.distinct(1))+

lemma index_sound_confirm: "index_sound w \<Longrightarrow> index_sound (snd (handle_confirm t w))"
  unfolding index_sound_def confirm_status confirm_index
  by (auto split: option.splits if_splits) (metis option.inject option.distinct(1))+

lemma index_sound_handle: "index_sound w \<Longrightarrow> index_sound (handle t w)"
  by (cases t) (simp_all add: index_sound_request index_sound_status index_sound_confirm)

lemma index_sound_handle_all: "index_sound w \<Longrightarrow> index_sound (handle_all mid w)"
  by (induction mid arbitrary: w) (simp_all add: index_sound_handle)

lemma index_sound_marked:
  "index_sound w \<Longrightarrow> index_sound (w\<lparr>status := mark_sent now b (status w)\<rparr>)"
  unfolding index_sound_def
  by simp (metis marked_forth)

lemma index_sound_step: "index_sound w \<Longrightarrow> index_sound (step ev w)"
proof (cases ev)
  case (Task t)
  assume "index_sound w"
  then show ?thesis by (simp add: Task index_sound_handle)
next
  case (Dispatch env mid now)
  assume "index_sound w"
  then have "index_sound (handle_all mid w)"
    by (rule index_sound_handle_all)
  then show ?thesis
    using dispatch_cases [of env mid now w] unfolding Dispatch
    by (metis index_sound_marked)
qed

lemma index_sound_run: "index_sound w \<Longrightarrow> index_sound (run evs w)"
  by (induction evs arbitrary: w) (simp_all add: index_sound_step)

lemma index_sound_init: "index_sound init"
  by (simp add: index_sound_def init_def)

section \<open>The invariant of fresh runs\<close>

lemma live_tokenI: "map_of (status w) a = Some r \<Longrightarrow> token r \<in> live_tokens w"
  by (force simp add: live_tokens_def dest: map_of_SomeD)

lemma pending_request: "index_pending w \<Longrightarrow> index_pending (snd (handle_request now tok a w))"
  unfolding index_pending_def request_status request_index
  by (auto split: option.splits if_splits)

lemma unique_request:
  "tok \<notin> live_tokens w \<Longrightarrow> tokens_unique w \<Longrightarrow> tokens_unique (snd (handle_request now tok a w))"
  unfolding tokens_unique_def request_status
  by (auto split: option.splits if_splits dest: live_tokenI)

lemma complete_request:
  "tok \<notin> live_tokens w \<Longrightarrow> tokens_unique w \<Longrightarrow> index_complete w
     \<Longrightarrow> index_complete (snd (handle_request now tok a w))"
  unfolding tokens_unique_def index_complete_def request_status request_index
  by (auto split: option.splits if_splits dest: live_tokenI)

lemma pending_status: "index_pending w \<Longrightarrow> index_pending (snd (handle_status now a w))"
  unfolding index_pending_def status_status status_index
  by (auto split: option.splits if_splits)

lemma unique_status: "tokens_unique w \<Longrightarrow> tokens_unique (snd (handle_status now a w))"
  unfolding tokens_unique_def status_status
  by (auto split: option.splits if_splits)

lemma complete_status:
  "tokens_unique w \<Longrightarrow> index_complete w \<Longrightarrow> index_complete (snd (handle_status now a w))"
  unfolding tokens_unique_def index_complete_def status_status status_index
  by (auto split: option.splits if_splits)

lemma pending_confirm:
  "index_sound w \<Longrightarrow> index_pending w \<Longrightarrow> index_pending (snd (handle_confirm t w))"
  unfolding index_sound_def index_pending_def confirm_status confirm_index
  by (auto split: option.splits if_splits) (metis option.inject option.distinct(1))+

lemma unique_confirm: "tokens_unique w \<Longrightarrow> tokens_unique (snd (handle_confirm t w))"
  unfolding tokens_unique_def confirm_status
  by (auto split: option.splits if_splits)

lemma complete_confirm:
  "index_complete w \<Longrightarrow> index_complete (snd (handle_confirm t w))"
  unfolding index_complete_def confirm_status confirm_index
  by (auto split: option.splits if_splits) (metis option.inject option.distinct(1))+

lemma pending_marked:
  "index_pending w \<Longrightarrow> index_pending (w\<lparr>status := mark_sent now b (status w)\<rparr>)"
  unfolding index_pending_def
  by simp (metis marked_back)

lemma unique_marked:
  "tokens_unique w \<Longrightarrow> tokens_unique (w\<lparr>status := mark_sent now b (status w)\<rparr>)"
  unfolding tokens_unique_def
  by simp (metis marked_back)

lemma complete_marked:
  "index_complete w \<Longrightarrow> index_complete (w\<lparr>status := mark_sent now b (status w)\<rparr>)"
  unfolding index_complete_def
  by simp (metis marked_back)

lemma inv_handle: "fresh_task t w \<Longrightarrow> inv w \<Longrightarrow> inv (handle t w)"
  unfolding inv_def
  by (cases t)
    (simp_all add: pending_request unique_request complete_request
      pending_status unique_status complete_status pending_confirm unique_confirm
      complete_confirm index_sound_request index_sound_status index_sound_confirm)

lemma inv_handle_all: "fresh_tasks mid w \<Longrightarrow> inv w \<Longrightarrow> inv (handle_all mid w)"
  by (induction mid arbitrary: w) (simp_all add: inv_handle)

lemma inv_marked: "inv w \<Longrightarrow> inv (w\<lparr>status := mark_sent now b (status w)\<rparr>)"
  unfolding inv_def
  by (simp add: index_sound_marked pending_marked unique_marked complete_marked)

lemma inv_step: "fresh_event ev w \<Longrightarrow> inv w \<Longrightarrow> inv (step ev w)"
proof (cases ev)
  case (Task t)
  assume "fresh_event ev w" and "inv w"
  then show ?thesis by (simp add: Task inv_handle)
next
  case (Dispatch env mid now)
  assume "fresh_event ev w" and "inv w"
  then have "inv (handle_all mid w)"
    by (simp add: Dispatch inv_handle_all)
  then show ?thesis
    using dispatch_cases [of env mid now w] unfolding Dispatch
    by (metis inv_marked)
qed

lemma inv_run: "fresh_run evs w \<Longrightarrow> inv w \<Longrightarrow> inv (run evs w)"
  by (induction evs arbitrary: w) (simp_all add: inv_step)

lemma inv_init: "inv init"
  by (simp add: inv_def index_sound_def index_pending_def tokens_unique_def index_complete_def init_def)

section \<open>What only a request can bring about\<close>

lemma absent_handle:
  "map_of (status w) a = None \<Longrightarrow> requested t \<noteq> Some a \<Longrightarrow> map_of (status (handle t w)) a = None"
  by (cases t) (auto simp add: request_status status_status confirm_status split: option.splits)

lemma absent_handle_all:
  "map_of (status w) a = None \<Longrightarrow> Some a \<notin> set (map requested mid)
     \<Longrightarrow> map_of (status (handle_all mid w)) a = None"
proof (induction mid arbitrary: w)
  case Nil
  then show ?case by simp
next
  case (Cons t mid)
  from Cons.prems have "requested t \<noteq> Some a" and rest: "Some a \<notin> set (map requested mid)"
    by auto
  with Cons.prems have "map_of (status (handle t w)) a = None"
    by (simp add: absent_handle)
  with rest show ?case
    by (simp add: Cons.IH)
qed

lemma absent_step:
  assumes "map_of (status w) a = None" and "Some a \<notin> set (map requested (tasks ev))"
  shows "map_of (status (step ev w)) a = None"
proof (cases ev)
  case (Task t)
  with assms show ?thesis by (simp add: absent_handle)
next
  case (Dispatch env mid now)
  with assms have gone: "map_of (status (handle_all mid w)) a = None"
    by (simp add: absent_handle_all)
  obtain b where "step (Dispatch env mid now) w =
         (handle_all mid w)\<lparr>status := mark_sent now b (status (handle_all mid w))\<rparr>"
    using dispatch_cases by blast
  with gone show ?thesis
    by (simp add: Dispatch mark_sent_map)
qed

lemma absent_run:
  "map_of (status w) a = None \<Longrightarrow> \<not> requests a evs \<Longrightarrow> map_of (status (run evs w)) a = None"
proof (induction evs arbitrary: w)
  case Nil
  then show ?case by simp
next
  case (Cons ev evs)
  from Cons.prems have "Some a \<notin> set (map requested (tasks ev))" and rest: "\<not> requests a evs"
    by (auto simp add: requests_def)
  with Cons.prems have "map_of (status (step ev w)) a = None"
    by (simp add: absent_step)
  with rest show ?case
    by (simp add: Cons.IH)
qed

lemma token_absent_handle:
  "map_of (token_map w) t = None \<Longrightarrow> drawn k \<noteq> Some t \<Longrightarrow> map_of (token_map (handle k w)) t = None"
  by (cases k) (auto simp add: request_index status_index confirm_index split: option.splits)

lemma token_absent_handle_all:
  "map_of (token_map w) t = None \<Longrightarrow> Some t \<notin> set (map drawn mid)
     \<Longrightarrow> map_of (token_map (handle_all mid w)) t = None"
proof (induction mid arbitrary: w)
  case Nil
  then show ?case by simp
next
  case (Cons k mid)
  from Cons.prems have "drawn k \<noteq> Some t" and rest: "Some t \<notin> set (map drawn mid)"
    by auto
  with Cons.prems have "map_of (token_map (handle k w)) t = None"
    by (simp add: token_absent_handle)
  with rest show ?case
    by (simp add: Cons.IH)
qed

lemma token_absent_step:
  assumes "map_of (token_map w) t = None" and "Some t \<notin> set (map drawn (tasks ev))"
  shows "map_of (token_map (step ev w)) t = None"
proof (cases ev)
  case (Task k)
  with assms show ?thesis by (simp add: token_absent_handle)
next
  case (Dispatch env mid now)
  with assms have gone: "map_of (token_map (handle_all mid w)) t = None"
    by (simp add: token_absent_handle_all)
  obtain b where "step (Dispatch env mid now) w =
         (handle_all mid w)\<lparr>status := mark_sent now b (status (handle_all mid w))\<rparr>"
    using dispatch_cases by blast
  with gone show ?thesis
    by (simp add: Dispatch)
qed

lemma token_absent_run:
  "map_of (token_map w) t = None \<Longrightarrow> \<not> draws t evs \<Longrightarrow> map_of (token_map (run evs w)) t = None"
proof (induction evs arbitrary: w)
  case Nil
  then show ?case by simp
next
  case (Cons ev evs)
  from Cons.prems have "Some t \<notin> set (map drawn (tasks ev))" and rest: "\<not> draws t evs"
    by (auto simp add: draws_def)
  with Cons.prems have "map_of (token_map (step ev w)) t = None"
    by (simp add: token_absent_step)
  with rest show ?case
    by (simp add: Cons.IH)
qed

lemma confirm_absent:
  assumes "map_of (token_map w) t = None"
  shows "handle_confirm t w = (False, w)"
proof -
  have "AList.delete t (token_map w) = token_map w"
    using assms by (simp add: map_of_eq_None_iff)
  with assms show ?thesis
    by (simp add: handle_confirm_def dict_pop_def)
qed

lemmas handlers = handle_request_def handle_status_def handle_confirm_def store_new_def
  cleanup_def dict_get_def dict_pop_def init_def RESEND_WINDOW_def batch_cycle_def
  select_batch_def send_batch_def held_def mark_sent_def mark_def int_trunc_def Let_def

section \<open>Status of an address that was never requested\<close>

text \<open>
  Claim C7. A status query for an address without a record replies \<open>None\<close> and leaves the
  worker as it was; in particular this holds after any run from the initial worker in which
  the address was never requested.
\<close>

theorem status_unknown_address:
  "(map_of (status w) a = None \<longrightarrow> handle_status now a w = (None, w)) \<and>
   (\<not> requests a evs \<longrightarrow> handle_status now a (run evs init) = (None, run evs init))"
proof -
  have "map_of (status init) a = None" by (simp add: init_def)
  then have "\<not> requests a evs \<Longrightarrow> map_of (status (run evs init)) a = None"
    by (rule absent_run)
  then show ?thesis by (auto simp add: status_absent)
qed

theorem status_unknown_address_witness:
  "map_of (status (run [Task (Request 0 ''t'' ''b'')] init)) ''a'' = None \<and>
   \<not> requests ''a'' [Task (Request 0 ''t'' ''b'')] \<and>
   handle_status 5 ''a'' (run [Task (Request 0 ''t'' ''b'')] init) = (None, run [Task (Request 0 ''t'' ''b'')] init)"
proof -
  have h1: "map_of (status (run [Task (Request 0 ''t'' ''b'')] init)) ''a'' = None"
    by (simp add: handlers)
  have h2: "\<not> requests ''a'' [Task (Request 0 ''t'' ''b'')]"
    by (simp add: requests_def)
  from h1 h2 status_unknown_address [of "run [Task (Request 0 ''t'' ''b'')] init" "''a''" 5 "[Task (Request 0 ''t'' ''b'')]"]
  show ?thesis by blast
qed

section \<open>Requests\<close>

text \<open>
  Claim C8. A request for an address whose record is confirmed replies \<open>True\<close> and the
  worker after the call is the worker before it: both dictionaries and the record are
  untouched.
\<close>

theorem request_confirmed_noop:
  assumes "map_of (status w) a = Some r" and "confirmed r"
  shows "handle_request now tok a w = (True, w)"
  using assms by (simp add: handle_request_def dict_get_def)

theorem request_confirmed_noop_witness:
  "map_of (status (run [Task (Request 0 ''t'' ''a''), Task (Confirm ''t'')] init)) ''a''
     = Some \<lparr>sent = False, ts = 0, confirmed = True, token = ''t''\<rparr> \<and>
   handle_request 1 ''u'' ''a'' (run [Task (Request 0 ''t'' ''a''), Task (Confirm ''t'')] init)
     = (True, run [Task (Request 0 ''t'' ''a''), Task (Confirm ''t'')] init)"
proof -
  have h: "map_of (status (run [Task (Request 0 ''t'' ''a''), Task (Confirm ''t'')] init)) ''a''
     = Some \<lparr>sent = False, ts = 0, confirmed = True, token = ''t''\<rparr>"
    by (simp add: handlers)
  from h request_confirmed_noop [OF h, of 1 "''u''"] show ?thesis by simp
qed

text \<open>
  Claim C1, amended. For a live record that is not confirmed, a request is refused
  (reply \<open>False\<close>, worker unchanged) when the record is sent and less than the resend
  window has passed since its dispatch time; while the record is not yet sent, a request
  replies \<open>True\<close>, whatever the clock reads.
\<close>

theorem request_resend_gate:
  assumes "map_of (status w) a = Some r" and "\<not> confirmed r"
  shows "(sent r \<and> now - ts r < of_int RESEND_WINDOW \<longrightarrow> handle_request now tok a w = (False, w)) \<and>
         (\<not> sent r \<longrightarrow> fst (handle_request now tok a w) = True)"
  using assms by (simp add: handle_request_def dict_get_def)

theorem request_resend_gate_witness:
  "handle_request 20 ''t2'' ''a''
     (run [Task (Request 0 ''t1'' ''a''), Dispatch \<lparr>connect_ok = True, login_ok = True, build_ok = (\<lambda>e t. True), send_ok = (\<lambda>e t. True), quit_ok = True\<rparr> [] 10] init)
     = (False, run [Task (Request 0 ''t1'' ''a''), Dispatch \<lparr>connect_ok = True, login_ok = True, build_ok = (\<lambda>e t. True), send_ok = (\<lambda>e t. True), quit_ok = True\<rparr> [] 10] init) \<and>
   fst (handle_request 1 ''t2'' ''a'' (run [Task (Request 0 ''t1'' ''a'')] init)) = True"
proof -
  have sent: "map_of (status (run [Task (Request 0 ''t1'' ''a''), Dispatch \<lparr>connect_ok = True, login_ok = True, build_ok = (\<lambda>e t. True), send_ok = (\<lambda>e t. True), quit_ok = True\<rparr> [] 10] init)) ''a''
      = Some \<lparr>sent = True, ts = 10, confirmed = False, token = ''t1''\<rparr>"
    by (simp add: handlers)
  have unsent: "map_of (status (run [Task (Request 0 ''t1'' ''a'')] init)) ''a''
      = Some \<lparr>sent = False, ts = 0, confirmed = False, token = ''t1''\<rparr>"
    by (simp add: handlers)
  from request_resend_gate [OF sent, of 20 "''t2''"] request_resend_gate [OF unsent, of 1 "''t2''"]
  show ?thesis by (simp add: RESEND_WINDOW_def)
qed

text \<open>
  Claim C1 as stated fails: a first request creates an unsent record, and a second request
  one second later finds \<open>sent = False\<close>, passes the gate and replies \<open>True\<close> again.
\<close>

theorem request_twice_unsent_counterexample:
  "fst (handle_request 0 ''t1'' ''a'' init) = True \<and>
   map_of (status (snd (handle_request 0 ''t1'' ''a'' init))) ''a''
     = Some \<lparr>sent = False, ts = 0, confirmed = False, token = ''t1''\<rparr> \<and>
   (1 :: real) - 0 < of_int RESEND_WINDOW \<and>
   fst (handle_request 1 ''t2'' ''a'' (snd (handle_request 0 ''t1'' ''a'' init))) = True"
  by (simp add: handlers)

section \<open>The status snapshot\<close>

lemma trunc_elapsed:
  fixes x :: real and W :: int
  assumes "0 \<le> x"
  shows "max 0 (W - int_trunc x) = \<lceil>max 0 (of_int W - x)\<rceil>"
proof -
  have "\<lceil>of_int W - x\<rceil> = W - \<lfloor>x\<rfloor>"
    by (simp add: ceiling_def)
  moreover have "\<lceil>max 0 (of_int W - x)\<rceil> = max 0 \<lceil>of_int W - x\<rceil>"
  proof (cases "0 \<le> of_int W - x")
    case True
    then have "0 \<le> \<lceil>of_int W - x\<rceil>"
      by (simp add: zero_le_ceiling)
    then have "max 0 \<lceil>of_int W - x\<rceil> = \<lceil>of_int W - x\<rceil>"
      by (rule max_absorb2)
    moreover from True have "max 0 (of_int W - x) = of_int W - x"
      by (rule max_absorb2)
    ultimately show ?thesis
      by (simp only:)
  next
    case False
    then have "\<lceil>of_int W - x\<rceil> \<le> 0"
      by (simp add: ceiling_le_zero)
    then have "max 0 \<lceil>of_int W - x\<rceil> = 0"
      by (rule max_absorb1)
    moreover from False have "max 0 (of_int W - x) = 0"
      by (simp add: max_absorb1)
    ultimately show ?thesis
      by (simp only: ceiling_zero)
  qed
  ultimately show ?thesis
    using assms by (simp add: int_trunc_def)
qed

text \<open>
  Claim C9, amended. The snapshot of a live record carries the record's \<open>sent\<close> and
  \<open>confirmed\<close> flags as 0 or 1 and, as \<open>timer\<close>, 0 when the record is not sent and
  otherwise the resend window minus the whole seconds elapsed since the dispatch time
  (fraction dropped), never below 0. With the clock at or past the dispatch time this is
  the time left before a resend is permitted, rounded up to a whole second.
\<close>

theorem status_snapshot:
  assumes "map_of (status w) a = Some r"
  shows "fst (handle_status now a w) =
           Some \<lparr>ans_sent = of_bool (sent r),
                 ans_timer = (if sent r then max 0 (RESEND_WINDOW - int_trunc (now - ts r)) else 0),
                 ans_confirmed = of_bool (confirmed r)\<rparr> \<and>
         (ts r \<le> now \<longrightarrow>
            max 0 (RESEND_WINDOW - int_trunc (now - ts r))
              = \<lceil>max 0 (of_int RESEND_WINDOW - (now - ts r))\<rceil>)"
  using assms trunc_elapsed [of "now - ts r" RESEND_WINDOW]
  by (simp add: handle_status_def dict_get_def Let_def)

theorem status_snapshot_witness:
  "map_of (status (run [Task (Request 100 ''t'' ''a''), Dispatch \<lparr>connect_ok = True, login_ok = True, build_ok = (\<lambda>e t. True), send_ok = (\<lambda>e t. True), quit_ok = True\<rparr> [] 110] init)) ''a''
     = Some \<lparr>sent = True, ts = 110, confirmed = False, token = ''t''\<rparr> \<and>
   fst (handle_status (221 / 2) ''a'' (run [Task (Request 100 ''t'' ''a''), Dispatch \<lparr>connect_ok = True, login_ok = True, build_ok = (\<lambda>e t. True), send_ok = (\<lambda>e t. True), quit_ok = True\<rparr> [] 110] init))
     = Some \<lparr>ans_sent = 1, ans_timer = 30, ans_confirmed = 0\<rparr> \<and>
   \<lceil>max 0 (of_int RESEND_WINDOW - (221 / 2 - 110 :: real))\<rceil> = 30"
proof -
  have h: "map_of (status (run [Task (Request 100 ''t'' ''a''), Dispatch \<lparr>connect_ok = True, login_ok = True, build_ok = (\<lambda>e t. True), send_ok = (\<lambda>e t. True), quit_ok = True\<rparr> [] 110] init)) ''a''
     = Some \<lparr>sent = True, ts = 110, confirmed = False, token = ''t''\<rparr>"
    by (simp add: handlers)
  from h status_snapshot [OF h, of "221 / 2"] show ?thesis
    by (simp add: RESEND_WINDOW_def int_trunc_def)
qed

text \<open>
  Claim C9 as stated fails: half a second after the dispatch the time left is 29.5
  seconds, and the snapshot carries 30.
\<close>

theorem status_remaining_counterexample:
  "map_of (status (run [Task (Request 100 ''t'' ''a''), Dispatch \<lparr>connect_ok = True, login_ok = True, build_ok = (\<lambda>e t. True), send_ok = (\<lambda>e t. True), quit_ok = True\<rparr> [] 110] init)) ''a''
     = Some \<lparr>sent = True, ts = 110, confirmed = False, token = ''t''\<rparr> \<and>
   map_option ans_timer (fst (handle_status (221 / 2) ''a'' (run [Task (Request 100 ''t'' ''a''), Dispatch \<lparr>connect_ok = True, login_ok = True, build_ok = (\<lambda>e t. True), send_ok = (\<lambda>e t. True), quit_ok = True\<rparr> [] 110] init)))
     = Some 30 \<and>
   max 0 (of_int RESEND_WINDOW - (221 / 2 - 110 :: real)) = 59 / 2 \<and>
   of_int 30 \<noteq> (59 / 2 :: real)"
  by (simp add: handlers)

section \<open>Status of a confirmed record\<close>

text \<open>
  Claim C4. For a confirmed record, the status query replies with a snapshot whose
  \<open>confirmed\<close> entry is 1 and then removes the address from \<open>status\<close> and the record's
  token from \<open>token_map\<close>. The next status query for the address replies \<open>None\<close>, and so
  does every later one as long as the address is not requested again.
\<close>

theorem status_confirmed_once:
  assumes "map_of (status w) a = Some r" and "confirmed r"
  shows "\<exists>ans w'. handle_status now a w = (Some ans, w') \<and> ans_confirmed ans = 1
           \<and> map_of (status w') = (map_of (status w))(a := None)
           \<and> map_of (token_map w') = (map_of (token_map w))(token r := None)
           \<and> handle_status now' a w' = (None, w')
           \<and> (\<forall>evs. \<not> requests a evs \<longrightarrow> handle_status now' a (run evs w') = (None, run evs w'))"
proof -
  define w' where "w' = cleanup a (token r) w"
  have st: "map_of (status w') = (map_of (status w))(a := None)"
    by (simp add: w'_def cleanup_def dict_pop_map)
  have ix: "map_of (token_map w') = (map_of (token_map w))(token r := None)"
    by (simp add: w'_def cleanup_def dict_pop_map)
  have gone: "map_of (status w') a = None"
    by (simp add: st)
  have later: "handle_status now' a (run evs w') = (None, run evs w')" if "\<not> requests a evs" for evs
    using absent_run [OF gone that] by (rule status_absent)
  have "\<exists>ans. handle_status now a w = (Some ans, w') \<and> ans_confirmed ans = 1"
    using assms by (simp add: handle_status_def dict_get_def w'_def Let_def)
  with st ix later status_absent [OF gone] show ?thesis by blast
qed

theorem status_confirmed_once_witness:
  "map_of (status (run [Task (Request 0 ''t'' ''a''), Task (Confirm ''t'')] init)) ''a''
     = Some \<lparr>sent = False, ts = 0, confirmed = True, token = ''t''\<rparr> \<and>
   \<not> requests ''a'' [Task (Status 3 ''b''), Task (Confirm ''t'')] \<and>
   fst (handle_status 1 ''a'' (run [Task (Request 0 ''t'' ''a''), Task (Confirm ''t'')] init))
     = Some \<lparr>ans_sent = 0, ans_timer = 0, ans_confirmed = 1\<rparr> \<and>
   fst (handle_status 2 ''a'' (run [Task (Status 3 ''b''), Task (Confirm ''t'')]
          (snd (handle_status 1 ''a'' (run [Task (Request 0 ''t'' ''a''), Task (Confirm ''t'')] init)))))
     = None"
proof -
  have h: "map_of (status (run [Task (Request 0 ''t'' ''a''), Task (Confirm ''t'')] init)) ''a''
     = Some \<lparr>sent = False, ts = 0, confirmed = True, token = ''t''\<rparr>"
    by (simp add: handlers)
  have n: "\<not> requests ''a'' [Task (Status 3 ''b''), Task (Confirm ''t'')]"
    by (simp add: requests_def)
  from status_confirmed_once [OF h, of 1 2] obtain ans w'
    where first: "handle_status 1 ''a'' (run [Task (Request 0 ''t'' ''a''), Task (Confirm ''t'')] init) = (Some ans, w')"
      and later: "\<forall>evs. \<not> requests ''a'' evs \<longrightarrow> handle_status 2 ''a'' (run evs w') = (None, run evs w')"
    by auto
  from later n have "handle_status 2 ''a'' (run [Task (Status 3 ''b''), Task (Confirm ''t'')] w') = (None, run [Task (Status 3 ''b''), Task (Confirm ''t'')] w')"
    by blast
  moreover have "fst (handle_status 1 ''a'' (run [Task (Request 0 ''t'' ''a''), Task (Confirm ''t'')] init))
     = Some \<lparr>ans_sent = 0, ans_timer = 0, ans_confirmed = 1\<rparr>"
    by (simp add: handlers)
  ultimately show ?thesis
    using h n first by simp
qed

section \<open>Resending after the window\<close>

text \<open>
  Claim C5. For a sent record that is not confirmed, a request at least the resend window
  after the dispatch time replies \<open>True\<close>, stores a new unsent record with the newly drawn
  token, files the new token under the address and removes the old token from the index.
  Confirming the old token afterwards replies \<open>False\<close>, at once and after any further
  events that do not draw the old token again. The drawn token differs from the old one.
\<close>

theorem resend_after_window:
  assumes "map_of (status w) a = Some r" and "sent r" and "\<not> confirmed r"
    and "of_int RESEND_WINDOW \<le> now - ts r" and "tok \<noteq> token r"
  shows "\<exists>w'. handle_request now tok a w = (True, w')
           \<and> map_of (status w') a = Some \<lparr>sent = False, ts = 0, confirmed = False, token = tok\<rparr>
           \<and> map_of (token_map w') tok = Some a
           \<and> map_of (token_map w') (token r) = None
           \<and> (\<forall>evs. \<not> draws (token r) evs \<longrightarrow> fst (handle_confirm (token r) (run evs w')) = False)"
proof -
  define w' where "w' = snd (handle_request now tok a w)"
  have reply: "handle_request now tok a w = (True, w')"
    using assms by (simp add: w'_def handle_request_def dict_get_def)
  have st: "map_of (status w') a = Some \<lparr>sent = False, ts = 0, confirmed = False, token = tok\<rparr>"
    using assms by (simp add: w'_def request_status)
  have new: "map_of (token_map w') tok = Some a"
    using assms by (simp add: w'_def request_index)
  have old: "map_of (token_map w') (token r) = None"
    using assms by (simp add: w'_def request_index)
  have later: "fst (handle_confirm (token r) (run evs w')) = False" if "\<not> draws (token r) evs" for evs
    using token_absent_run [OF old that] by (simp add: confirm_absent)
  from reply st new old later show ?thesis by blast
qed


theorem resend_after_window_witness:
  "map_of (status (run [Task (Request 0 ''t1'' ''a''), Dispatch \<lparr>connect_ok = True, login_ok = True, build_ok = (\<lambda>e t. True), send_ok = (\<lambda>e t. True), quit_ok = True\<rparr> [] 10] init)) ''a''
     = Some \<lparr>sent = True, ts = 10, confirmed = False, token = ''t1''\<rparr> \<and>
   of_int RESEND_WINDOW \<le> (40 :: real) - 10 \<and>
   \<not> draws ''t1'' [Task (Status 41 ''a'')] \<and>
   fst (handle_request 40 ''t2'' ''a''
     (run [Task (Request 0 ''t1'' ''a''), Dispatch \<lparr>connect_ok = True, login_ok = True, build_ok = (\<lambda>e t. True), send_ok = (\<lambda>e t. True), quit_ok = True\<rparr> [] 10] init)) = True \<and>
   fst (handle_confirm ''t1'' (run [Task (Status 41 ''a'')] (snd (handle_request 40 ''t2'' ''a''
     (run [Task (Request 0 ''t1'' ''a''), Dispatch \<lparr>connect_ok = True, login_ok = True, build_ok = (\<lambda>e t. True), send_ok = (\<lambda>e t. True), quit_ok = True\<rparr> [] 10] init))))) = False"
proof -
  have h: "map_of (status (run [Task (Request 0 ''t1'' ''a''), Dispatch \<lparr>connect_ok = True, login_ok = True, build_ok = (\<lambda>e t. True), send_ok = (\<lambda>e t. True), quit_ok = True\<rparr> [] 10] init)) ''a''
     = Some \<lparr>sent = True, ts = 10, confirmed = False, token = ''t1''\<rparr>"
    by (simp add: handlers)
  have d: "\<not> draws ''t1'' [Task (Status 41 ''a'')]"
    by (simp add: draws_def)
  have e: "of_int RESEND_WINDOW \<le> (40 :: real) - 10"
    by (simp add: RESEND_WINDOW_def)
  from resend_after_window [OF h, of 40 "''t2''"] e obtain w'
    where first: "handle_request 40 ''t2'' ''a''
       (run [Task (Request 0 ''t1'' ''a''), Dispatch \<lparr>connect_ok = True, login_ok = True, build_ok = (\<lambda>e t. True), send_ok = (\<lambda>e t. True), quit_ok = True\<rparr> [] 10] init) = (True, w')"
      and later: "\<forall>evs. \<not> draws ''t1'' evs \<longrightarrow> fst (handle_confirm ''t1'' (run evs w')) = False"
    by auto
  from later d have "fst (handle_confirm ''t1'' (run [Task (Status 41 ''a'')] w')) = False"
    by blast
  with h d e first show ?thesis by simp
qed

section \<open>The dispatch cycle\<close>

text \<open>
  Every handler and every pass of the sender keeps the keys of both dictionaries distinct,
  so the association lists of a worker reached from the initial one are dictionaries.
\<close>

lemma wf_handle: "wf w \<Longrightarrow> wf (handle t w)"
  by (cases t)
    (auto simp add: wf_def handle_request_def handle_status_def handle_confirm_def store_new_def
      cleanup_def dict_pop_def dict_get_def Let_def distinct_update distinct_delete
      split: option.splits)

lemma wf_handle_all: "wf w \<Longrightarrow> wf (handle_all mid w)"
  by (induction mid arbitrary: w) (simp_all add: wf_handle)

lemma distinct_mark_sent: "distinct (map fst st) \<Longrightarrow> distinct (map fst (mark_sent now b st))"
  unfolding mark_sent_def
  by (induction b arbitrary: st) (auto simp add: distinct_map_entry)

lemma wf_step: "wf w \<Longrightarrow> wf (step ev w)"
proof (cases ev)
  case (Task t)
  assume "wf w"
  then show ?thesis by (simp add: Task wf_handle)
next
  case (Dispatch env mid now)
  assume "wf w"
  then have "wf (handle_all mid w)"
    by (rule wf_handle_all)
  moreover obtain b where "step (Dispatch env mid now) w =
         (handle_all mid w)\<lparr>status := mark_sent now b (status (handle_all mid w))\<rparr>"
    using dispatch_cases by blast
  ultimately show ?thesis
    by (simp add: Dispatch wf_def distinct_mark_sent)
qed

lemma wf_run: "wf w \<Longrightarrow> wf (run evs w)"
  by (induction evs arbitrary: w) (simp_all add: wf_step)

lemma wf_init: "wf init"
  by (simp add: wf_def init_def)

lemma reachable_distinct: "distinct (map fst (status (run evs init)))"
  using wf_run [OF wf_init, of evs] by (simp add: wf_def)





lemma send_items_raises:
  "(e, r) \<in> set batch \<Longrightarrow> \<not> build_ok env e (token r) \<Longrightarrow> send_items env batch = Inl BuildError"
  by (induction batch) (auto split: sum.splits)

lemma unbuilt_marks_nothing:
  assumes "(e, r) \<in> set (select_batch w)" and "\<not> build_ok env e (token r)"
  shows "\<exists>err. batch_cycle env mid now w = (Inl err, handle_all mid w)"
proof -
  from assms(1) have "select_batch w \<noteq> []" by auto
  moreover have "\<exists>err. send_batch env (select_batch w) = Inl err"
    using send_items_raises [OF assms] by (simp add: send_batch_def)
  ultimately show ?thesis
    by (auto simp add: batch_cycle_def Let_def)
qed








text \<open>
  A request handled during the delivery replaces the record of its address, still unsent
  at that moment: the pass then marks the record of the other address, and the new record
  waits for the next pass.
\<close>

lemma request_during_delivery:
  "map_of (status (run [Task (Request 0 ''t1'' ''a''), Task (Request 1 ''t2'' ''b''),
                        Dispatch \<lparr>connect_ok = True, login_ok = True, build_ok = (\<lambda>e t. True),
                                  send_ok = (\<lambda>e t. True), quit_ok = True\<rparr>
                                 [Request 5 ''t3'' ''a''] 10] init)) ''a''
     = Some \<lparr>sent = False, ts = 0, confirmed = False, token = ''t3''\<rparr> \<and>
   map_of (status (run [Task (Request 0 ''t1'' ''a''), Task (Request 1 ''t2'' ''b''),
                        Dispatch \<lparr>connect_ok = True, login_ok = True, build_ok = (\<lambda>e t. True),
                                  send_ok = (\<lambda>e t. True), quit_ok = True\<rparr>
                                 [Request 5 ''t3'' ''a''] 10] init)) ''b''
     = Some \<lparr>sent = True, ts = 10, confirmed = False, token = ''t2''\<rparr>"
  by (simp add: handlers)

text \<open>
  With a message class that refuses an address with a line feed or a carriage return, one
  such address in the batch ends the delivery with an exception, and the pass marks no
  record, the one of the other address included.
\<close>

lemma line_break_unmarked:
  "batch_cycle \<lparr>connect_ok = True, login_ok = True,
                 build_ok = (\<lambda>e t. CHR 0x0A \<notin> set e \<and> CHR 0x0D \<notin> set e),
                 send_ok = (\<lambda>e t. True), quit_ok = True\<rparr> [] 10
     (run [Task (Request 0 ''t1'' ''a''), Task (Request 1 ''t2'' (''b'' @ [CHR 0x0A] @ ''c''))] init)
   = (Inl BuildError, run [Task (Request 0 ''t1'' ''a''), Task (Request 1 ''t2'' (''b'' @ [CHR 0x0A] @ ''c''))] init)"
  by (simp add: handlers)

section \<open>The token index along a run\<close>

text \<open>
  Claim C2, amended. After any run from the initial worker in which every request draws a
  token carried by no live record: every live record that is not confirmed, at a
  non-empty address, has its token filed under its address; and every key of the index
  leads to a live record that carries this token and is not confirmed, and no other live
  record carries it.
\<close>

theorem token_index_invariant:
  assumes "fresh_run evs init"
  shows "(\<forall>a r. map_of (status (run evs init)) a = Some r \<and> \<not> confirmed r \<and> a \<noteq> []
            \<longrightarrow> map_of (token_map (run evs init)) (token r) = Some a) \<and>
         (\<forall>t a. map_of (token_map (run evs init)) t = Some a \<longrightarrow>
            (\<exists>r. map_of (status (run evs init)) a = Some r \<and> token r = t \<and> \<not> confirmed r) \<and>
            (\<forall>b r'. map_of (status (run evs init)) b = Some r' \<and> token r' = t \<longrightarrow> b = a))"
proof -
  have "inv (run evs init)"
    using assms inv_init by (rule inv_run)
  then have s: "index_sound (run evs init)" and p: "index_pending (run evs init)"
    and u: "tokens_unique (run evs init)" and c: "index_complete (run evs init)"
    by (simp_all add: inv_def)
  from c have first: "\<forall>a r. map_of (status (run evs init)) a = Some r \<and> \<not> confirmed r \<and> a \<noteq> []
            \<longrightarrow> map_of (token_map (run evs init)) (token r) = Some a"
    by (simp add: index_complete_def)
  have second: "(\<exists>r. map_of (status (run evs init)) a = Some r \<and> token r = t \<and> \<not> confirmed r) \<and>
            (\<forall>b r'. map_of (status (run evs init)) b = Some r' \<and> token r' = t \<longrightarrow> b = a)"
    if key: "map_of (token_map (run evs init)) t = Some a" for t a
  proof -
    from s key obtain r where r: "map_of (status (run evs init)) a = Some r" "token r = t"
      unfolding index_sound_def by blast
    from p key r have "\<not> confirmed r"
      unfolding index_pending_def by blast
    moreover from u r have "\<forall>b r'. map_of (status (run evs init)) b = Some r' \<and> token r' = t \<longrightarrow> b = a"
      unfolding tokens_unique_def by blast
    ultimately show ?thesis using r by blast
  qed
  from first second show ?thesis by blast
qed

theorem token_index_invariant_witness:
  "fresh_run [Task (Request 0 ''t1'' ''a''), Task (Request 1 ''t2'' ''b''), Task (Confirm ''t1''), Task (Status 2 ''a''), Task (Request 3 ''t3'' ''a'')] init \<and>
   map_of (status (run [Task (Request 0 ''t1'' ''a''), Task (Request 1 ''t2'' ''b''), Task (Confirm ''t1''), Task (Status 2 ''a''), Task (Request 3 ''t3'' ''a'')] init)) ''b''
     = Some \<lparr>sent = False, ts = 0, confirmed = False, token = ''t2''\<rparr> \<and>
   map_of (token_map (run [Task (Request 0 ''t1'' ''a''), Task (Request 1 ''t2'' ''b''), Task (Confirm ''t1''), Task (Status 2 ''a''), Task (Request 3 ''t3'' ''a'')] init)) ''t2''
     = Some ''b''"
proof -
  let ?evs = "[Task (Request 0 ''t1'' ''a''), Task (Request 1 ''t2'' ''b''), Task (Confirm ''t1''), Task (Status 2 ''a''), Task (Request 3 ''t3'' ''a'')]"
  have f: "fresh_run ?evs init"
    by (simp add: handlers live_tokens_def)
  have b: "map_of (status (run ?evs init)) ''b'' = Some \<lparr>sent = False, ts = 0, confirmed = False, token = ''t2''\<rparr>"
    by (simp add: handlers)
  from token_index_invariant [OF f]
  have "\<forall>a r. map_of (status (run ?evs init)) a = Some r \<and> \<not> confirmed r \<and> a \<noteq> []
            \<longrightarrow> map_of (token_map (run ?evs init)) (token r) = Some a"
    by (rule conjunct1)
  with b have "map_of (token_map (run ?evs init)) ''t2'' = Some ''b''"
    by fastforce
  with f b show ?thesis by blast
qed

text \<open>
  Claim C2 as stated fails: confirming a token removes it from the index while the record,
  now confirmed, stays live until its next status query.
\<close>

theorem token_index_counterexample:
  "fresh_run [Task (Request 0 ''t'' ''a''), Task (Confirm ''t'')] init \<and>
   map_of (status (run [Task (Request 0 ''t'' ''a''), Task (Confirm ''t'')] init)) ''a''
     = Some \<lparr>sent = False, ts = 0, confirmed = True, token = ''t''\<rparr> \<and>
   map_of (token_map (run [Task (Request 0 ''t'' ''a''), Task (Confirm ''t'')] init)) ''t'' \<noteq> Some ''a''"
  by (simp add: handlers live_tokens_def)

section \<open>Redeeming a token\<close>

text \<open>
  A token filed under a non-empty address with a live record is redeemed once: the first
  confirmation replies \<open>True\<close>, marks the record confirmed and removes the token from the
  index; the second replies \<open>False\<close>.
\<close>

lemma confirm_first_time:
  assumes "map_of (token_map w) t = Some a" and "a \<noteq> []" and "map_of (status w) a = Some r"
  shows "\<exists>w'. handle_confirm t w = (True, w')
           \<and> map_of (status w') = (map_of (status w))(a \<mapsto> r\<lparr>confirmed := True\<rparr>)
           \<and> map_of (token_map w') = (map_of (token_map w))(t := None)
           \<and> handle_confirm t w' = (False, w')"
proof -
  define w' where "w' = snd (handle_confirm t w)"
  have reply: "handle_confirm t w = (True, w')"
    using assms by (simp add: w'_def handle_confirm_def dict_pop_def dict_get_def)
  have st: "map_of (status w') = (map_of (status w))(a \<mapsto> r\<lparr>confirmed := True\<rparr>)"
    using assms by (simp add: w'_def confirm_status)
  have ix: "map_of (token_map w') = (map_of (token_map w))(t := None)"
    by (simp add: w'_def confirm_index)
  then have "map_of (token_map w') t = None"
    by simp
  then have "handle_confirm t w' = (False, w')"
    by (rule confirm_absent)
  with reply st ix show ?thesis by blast
qed

text \<open>
  After any run from the initial worker, a confirmation replies \<open>True\<close> exactly when the
  token is a key of the index filed under a non-empty address: the branch for a missing
  record is never taken.
\<close>

lemma confirm_reply_reachable:
  "fst (handle_confirm t (run evs init)) \<longleftrightarrow>
     (\<exists>a. map_of (token_map (run evs init)) t = Some a \<and> a \<noteq> [])"
proof -
  have "index_sound (run evs init)"
    using index_sound_init by (rule index_sound_run)
  then show ?thesis
    unfolding confirm_reply index_sound_def by fastforce
qed

text \<open>
  Claim C3 at the empty address. A request for the address \<open>''''\<close> creates a live record
  and files the drawn token under it; the first confirmation of that token pops the entry,
  finds the empty string, and replies \<open>False\<close>: the record stays unconfirmed, and its token
  is gone from the index.
\<close>

theorem confirm_empty_address_rejected:
  "fst (handle_request 0 ''t'' '''' init) = True \<and>
   map_of (status (snd (handle_request 0 ''t'' '''' init))) ''''
     = Some \<lparr>sent = False, ts = 0, confirmed = False, token = ''t''\<rparr> \<and>
   map_of (token_map (snd (handle_request 0 ''t'' '''' init))) ''t'' = Some '''' \<and>
   handle_confirm ''t'' (snd (handle_request 0 ''t'' '''' init))
     = (False, \<lparr>status = [('''', \<lparr>sent = False, ts = 0, confirmed = False, token = ''t''\<rparr>)],
               token_map = []\<rparr>)"
  by (simp add: handlers)

text \<open>
  Claim C10 at the empty address. In a state reached by two requests and a status query the
  token \<open>''t''\<close> is a key of the index, filed under the empty address with its live record,
  and its confirmation replies \<open>False\<close>.
\<close>

theorem confirm_indexed_token_rejected:
  "map_of (token_map (run [Task (Request 0 ''u'' ''b''), Task (Request 1 ''t'' ''''), Task (Status 2 '''')] init)) ''t'' = Some '''' \<and>
   map_of (status (run [Task (Request 0 ''u'' ''b''), Task (Request 1 ''t'' ''''), Task (Status 2 '''')] init)) ''''
     = Some \<lparr>sent = False, ts = 0, confirmed = False, token = ''t''\<rparr> \<and>
   fst (handle_confirm ''t'' (run [Task (Request 0 ''u'' ''b''), Task (Request 1 ''t'' ''''), Task (Status 2 '''')] init)) = False"
  by (simp add: handlers)

end
